theory Spec2Isabelle
  imports Main "HOL-Library.Multiset"
begin

section \<open>JavaScript strings\<close>

text \<open>
  A JavaScript string is a sequence of UTF-16 code units, and \<open>length\<close>, \<open>slice\<close>,
  \<open>charAt\<close> and \<open>split\<close> all count code units. A string is therefore modelled as a list
  of code units (natural numbers below 65536); \<open>js\<close> embeds an ASCII literal.
\<close>

type_synonym jstring = "nat list"

definition js :: "string \<Rightarrow> jstring" where
  "js s = map of_char s"

text \<open>
  The code units that \<open>String.prototype.trim\<close> removes and that the regular expression
  class \<open>\s\<close> matches: the WhiteSpace and LineTerminator productions of ECMAScript.
\<close>

definition is_ws :: "nat \<Rightarrow> bool" where
  "is_ws c = (c \<in> set [9, 10, 11, 12, 13, 32, 160, 5760, 8232, 8233, 8239, 8287, 12288, 65279]
              \<or> (8192 \<le> c \<and> c \<le> 8202))"

definition trimStart :: "jstring \<Rightarrow> jstring" where
  "trimStart s = dropWhile is_ws s"

definition trimEnd :: "jstring \<Rightarrow> jstring" where
  "trimEnd s = rev (dropWhile is_ws (rev s))"

definition trim :: "jstring \<Rightarrow> jstring" where
  "trim s = trimEnd (trimStart s)"







section \<open>Workflow bucket names (TasksPage.tsx, LibraryList.tsx)\<close>









section \<open>The API contracts (api/library.ts, api/tasks.ts)\<close>

text \<open>Open JSON payloads (\<open>Record<string, unknown>\<close>, \<open>unknown[]\<close>).\<close>

datatype json =
  JNull | JBool bool | JNum int | JStr jstring | JArr "json list" | JObj "(jstring \<times> json) list"

datatype LibraryItemKind = Recipe | Pitfall | Decision | Checklist

datatype PromotionMode = Auto | User

record LibraryItemPublic =
  li_id :: jstring
  li_workflow_key :: jstring
  li_kind :: LibraryItemKind
  li_title :: jstring
  li_body_mdc :: jstring
  li_tags :: "(jstring \<times> json) list"
  li_source_refs :: "json list"
  li_promotion_mode :: PromotionMode
  li_created_at :: "jstring option"
  li_last_used_at :: "jstring option"
  li_superseded_by_id :: "jstring option"

record TaskPublic =
  t_id :: jstring
  t_title :: jstring
  t_workflow_key :: jstring
  t_goal :: "jstring option"
  t_acceptance_criteria :: "jstring option"
  t_systems_touched :: "(jstring \<times> json) list"
  t_risk_level :: jstring
  t_status :: jstring
  t_created_at :: "jstring option"
  t_last_touched_at :: "jstring option"

record RunPublic =
  r_id :: jstring
  r_task_id :: jstring
  r_targets :: "json list"
  r_started_at :: "jstring option"
  r_ended_at :: "jstring option"
  r_status :: jstring
  r_summary :: "jstring option"

record RunEventPublic =
  e_id :: int
  e_run_id :: jstring
  e_ts :: "jstring option"
  e_type :: jstring
  e_message :: "jstring option"
  e_data :: "(jstring \<times> json) list"
  e_supersedes_event_id :: "int option"

datatype RunLibraryRelation = Used | Created | Promoted | Superseded

record RunMemoryLinkPublic =
  relation :: RunLibraryRelation
  created_at :: "jstring option"
  library_item :: LibraryItemPublic

record RunDetailPublic =
  run :: RunPublic
  events :: "RunEventPublic list"
  memory_links :: "RunMemoryLinkPublic list"

subsection \<open>List requests\<close>

text \<open>
  The options object handed to the generated client's \<open>request\<close>. A query entry whose
  value is \<open>undefined\<close> is \<open>None\<close>. The client itself is not part of the sources, so
  \<open>readTasks\<close> and \<open>readLibraryItems\<close> take it as the parameter \<open>request\<close>.
\<close>

datatype qvalue = QString jstring | QNumber int | QBoolean bool | QKind LibraryItemKind

record ApiRequestOptions =
  req_method :: jstring
  req_url :: jstring
  req_query :: "(jstring \<times> qvalue option) list"

record ReadTasksParams =
  tp_workflow_key :: "jstring option"
  tp_status :: "jstring option"
  tp_q :: "jstring option"
  tp_skip :: "int option"
  tp_limit :: "int option"

record ReadLibraryItemsParams =
  lp_workflow_key :: "jstring option"
  lp_kind :: "LibraryItemKind option"
  lp_q :: "jstring option"
  lp_current_only :: "bool option"
  lp_skip :: "int option"
  lp_limit :: "int option"

text \<open>\<^verbatim>\<open>params.x?.trim() || undefined\<close>: the empty string is falsy.\<close>

definition trim_or_undefined :: "jstring option \<Rightarrow> jstring option" where
  "trim_or_undefined v =
     (case v of None \<Rightarrow> None | Some s \<Rightarrow> (if trim s = [] then None else Some (trim s)))"

definition readTasks :: "(ApiRequestOptions \<Rightarrow> 'r) \<Rightarrow> ReadTasksParams \<Rightarrow> 'r" where
  "readTasks request params =
     (let workflow_key = trim_or_undefined (tp_workflow_key params);
          status = trim_or_undefined (tp_status params);
          q = trim_or_undefined (tp_q params)
      in request \<lparr>req_method = js ''GET'', req_url = js ''/api/v1/tasks/'',
           req_query =
             [(js ''workflow_key'', map_option QString workflow_key),
              (js ''status'', map_option QString status),
              (js ''q'', map_option QString q),
              (js ''skip'', map_option QNumber (tp_skip params)),
              (js ''limit'', map_option QNumber (tp_limit params))]\<rparr>)"

definition readLibraryItems :: "(ApiRequestOptions \<Rightarrow> 'r) \<Rightarrow> ReadLibraryItemsParams \<Rightarrow> 'r" where
  "readLibraryItems request params =
     (let workflow_key = trim_or_undefined (lp_workflow_key params);
          q = trim_or_undefined (lp_q params)
      in request \<lparr>req_method = js ''GET'', req_url = js ''/api/v1/library/'',
           req_query =
             [(js ''workflow_key'', map_option QString workflow_key),
              (js ''kind'', map_option QKind (lp_kind params)),
              (js ''q'', map_option QString q),
              (js ''current_only'', map_option QBoolean (lp_current_only params)),
              (js ''skip'', map_option QNumber (lp_skip params)),
              (js ''limit'', map_option QNumber (lp_limit params))]\<rparr>)"

text \<open>The value a request carries for a query parameter; \<open>None\<close> when it is omitted.\<close>

definition query_value :: "ApiRequestOptions \<Rightarrow> jstring \<Rightarrow> qvalue option" where
  "query_value opts name = (case map_of (req_query opts) name of Some v \<Rightarrow> v | None \<Rightarrow> None)"

text \<open>
  What a text filter is sent as, in the words of the claim: trimmed, and omitted when it
  is absent or nothing but white space.
\<close>

definition sent_filter :: "jstring option \<Rightarrow> qvalue option" where
  "sent_filter v =
     (case v of None \<Rightarrow> None
      | Some s \<Rightarrow> if list_all is_ws s then None else Some (QString (trim s)))"

section \<open>Renaming a task (TaskDialog in TasksPage.tsx)\<close>

text \<open>
  The state of the dialog that the rename handlers read and write: the \<open>useState\<close> cells
  \<open>taskTitle\<close>, \<open>isRenamingTitle\<close>, \<open>titleDraft\<close>, \<open>titleError\<close> and the ref
  \<open>skipBlurCommitRef.current\<close>.
\<close>

record TaskDialogState =
  taskTitle :: jstring
  isRenamingTitle :: bool
  titleDraft :: jstring
  titleError :: "jstring option"
  skipBlurCommit :: bool

definition initialDialog :: "TaskPublic \<Rightarrow> TaskDialogState" where
  "initialDialog task =
     \<lparr>taskTitle = t_title task, isRenamingTitle = False, titleDraft = t_title task,
      titleError = None, skipBlurCommit = False\<rparr>"

text \<open>Double click (or Enter) on the title, and typing in the input.\<close>

definition startRename :: "TaskDialogState \<Rightarrow> TaskDialogState" where
  "startRename s = s\<lparr>titleDraft := taskTitle s, isRenamingTitle := True, titleError := None\<rparr>"

definition changeDraft :: "jstring \<Rightarrow> TaskDialogState \<Rightarrow> TaskDialogState" where
  "changeDraft v s = s\<lparr>titleDraft := v, titleError := None\<rparr>"

definition cancelRename :: "TaskDialogState \<Rightarrow> TaskDialogState" where
  "cancelRename s =
     s\<lparr>skipBlurCommit := False, isRenamingTitle := False, titleDraft := taskTitle s,
       titleError := None\<rparr>"

definition empty_title_message :: jstring where
  "empty_title_message = js ''Title can'' @ [8217] @ js ''t be empty.''"

definition rename_failed_message :: jstring where
  "rename_failed_message =
     js ''Couldn'' @ [8217] @ js ''t rename task. Check backend connectivity/auth.''"

text \<open>
  \<^verbatim>\<open>
  const commitRename = () => {
    const next = titleDraft.trim()
    if (!next) { setTitleError("Title can't be empty."); return }
    if (next === taskTitle.trim()) { cancelRename(); return }
    renameMutation.mutate(next)
  }
  \<close>
  The result is the new dialog state and the title handed to \<open>renameMutation.mutate\<close>,
  \<open>None\<close> when no update is issued.
\<close>

definition commitRename :: "TaskDialogState \<Rightarrow> TaskDialogState \<times> jstring option" where
  "commitRename s =
     (let next = trim (titleDraft s) in
      if next = [] then (s\<lparr>titleError := Some empty_title_message\<rparr>, None)
      else if next = trim (taskTitle s) then (cancelRename s, None)
      else (s, Some next))"

text \<open>The \<open>onSuccess\<close> and \<open>onError\<close> callbacks of \<open>renameMutation\<close>.\<close>

definition renameSuccess :: "TaskPublic \<Rightarrow> TaskDialogState \<Rightarrow> TaskDialogState" where
  "renameSuccess updated s =
     s\<lparr>taskTitle := t_title updated, titleDraft := t_title updated, isRenamingTitle := False,
       titleError := None\<rparr>"

definition renameError :: "TaskDialogState \<Rightarrow> TaskDialogState" where
  "renameError s = s\<lparr>titleError := Some rename_failed_message\<rparr>"

datatype store_error = NotFound | ValidationError | ConflictError | AuthError | TransientError

text \<open>
  Modelled from the spec: \<open>updateTaskTitle\<close>, the client call behind \<open>renameMutation\<close>,
  and the Task Store's \<open>rename\<close> that it reaches are not among the sources. The
  specification: \<open>rename(id, new_title)\<close> fails with ValidationError if the trimmed title
  is empty; otherwise it updates title and \<open>last_touched_at\<close> and returns the updated
  Task; it is an idempotent no-op if the new title equals the current (trimmed) title.
  The first argument is the store's clock.
\<close>

definition updateTaskTitle :: "jstring \<Rightarrow> jstring \<Rightarrow> TaskPublic \<Rightarrow> store_error + TaskPublic" where
  "updateTaskTitle now new_title task =
     (if trim new_title = [] then Inl ValidationError
      else if new_title = trim (t_title task) then Inr task
      else Inr (task\<lparr>t_title := new_title, t_last_touched_at := Some now\<rparr>))"

text \<open>
  One rename from the dialog to the store and back: \<open>commitRename\<close>, the mutation when one
  is issued, and the callback that follows. The pair is the dialog state and the stored
  Task.
\<close>

definition renameTask ::
  "jstring \<Rightarrow> TaskDialogState \<times> TaskPublic \<Rightarrow> TaskDialogState \<times> TaskPublic" where
  "renameTask now st =
     (case commitRename (fst st) of
        (s', None) \<Rightarrow> (s', snd st)
      | (s', Some nextTitle) \<Rightarrow>
          (case updateTaskTitle now nextTitle (snd st) of
             Inr updated \<Rightarrow> (renameSuccess updated s', updated)
           | Inl e \<Rightarrow> (renameError s', snd st)))"

text \<open>A stored Task for the worked instances.\<close>

definition sample_task :: TaskPublic where
  "sample_task =
     \<lparr>t_id = js ''t1'', t_title = js ''Fix login'', t_workflow_key = js ''github_api'',
      t_goal = None, t_acceptance_criteria = None, t_systems_touched = [],
      t_risk_level = js ''low'', t_status = js ''in_progress'',
      t_created_at = Some (js ''2026-01-05T10:00:00Z''), t_last_touched_at = None\<rparr>"

section \<open>Run detail: memory links by relation (RunDetailDialog in TasksPage.tsx)\<close>

text \<open>
  \<^verbatim>\<open>
  const groups: Record<RunLibraryRelation, RunMemoryLinkPublic[]> = {
    used: [], created: [], promoted: [], superseded: [],
  }
  for (const link of data?.memory_links ?? []) {
    groups[link.relation].push(link)
  }
  return groups
  \<close>
\<close>

record LinkGroups =
  used :: "RunMemoryLinkPublic list"
  created :: "RunMemoryLinkPublic list"
  promoted :: "RunMemoryLinkPublic list"
  superseded :: "RunMemoryLinkPublic list"

definition empty_groups :: LinkGroups where
  "empty_groups = \<lparr>used = [], created = [], promoted = [], superseded = []\<rparr>"

text \<open>\<open>groups[relation]\<close> and \<open>groups[link.relation].push(link)\<close>.\<close>

fun group_of :: "LinkGroups \<Rightarrow> RunLibraryRelation \<Rightarrow> RunMemoryLinkPublic list" where
  "group_of g Used = used g"
| "group_of g Created = created g"
| "group_of g Promoted = promoted g"
| "group_of g Superseded = superseded g"

definition group_push :: "RunMemoryLinkPublic \<Rightarrow> LinkGroups \<Rightarrow> LinkGroups" where
  "group_push link g =
     (case relation link of
        Used \<Rightarrow> g\<lparr>used := used g @ [link]\<rparr>
      | Created \<Rightarrow> g\<lparr>created := created g @ [link]\<rparr>
      | Promoted \<Rightarrow> g\<lparr>promoted := promoted g @ [link]\<rparr>
      | Superseded \<Rightarrow> g\<lparr>superseded := superseded g @ [link]\<rparr>)"

definition grouped :: "RunDetailPublic option \<Rightarrow> LinkGroups" where
  "grouped data =
     fold group_push (case data of None \<Rightarrow> [] | Some d \<Rightarrow> memory_links d) empty_groups"

section \<open>Error panels\<close>

text \<open>
  What a query hook hands to a component: \<open>data\<close>, \<open>isLoading\<close>, \<open>isError\<close> and the
  \<open>error\<close> object, of which the components read \<open>message\<close> only.
\<close>

record Error =
  err_message :: jstring

record 'a QueryResult =
  q_data :: "'a option"
  q_isLoading :: bool
  q_isError :: bool
  q_error :: "Error option"

text \<open>
  The branch a component renders: the skeleton, an error panel with its heading and the
  line under it, or the loaded content. \<open>RenderThrows\<close> is the \<open>TypeError\<close> of reading
  \<open>message\<close> from a missing error object.
\<close>

datatype view = Skeleton | ErrorPanel jstring jstring | Loaded | RenderThrows

definition couldnt_load :: "string \<Rightarrow> jstring" where
  "couldnt_load what = js ''Couldn'' @ [8217] @ js ''t load '' @ js what"

text \<open>
  \<open>LibraryList\<close>, the newer variant:
  \<^verbatim>\<open>
  if (itemsQuery.isLoading) return <LibraryListSkeleton />
  if (itemsQuery.isError) return (... Couldn't load Library ...
        {(itemsQuery.error as Error).message} ...)
  if (!itemsQuery.data) return <LibraryListSkeleton />
  \<close>
  and the older one, which tests \<open>itemsQuery.isLoading || !itemsQuery.data\<close> first.
\<close>

definition LibraryList_view :: "'a QueryResult \<Rightarrow> view" where
  "LibraryList_view itemsQuery =
     (if q_isLoading itemsQuery then Skeleton
      else if q_isError itemsQuery then
        (case q_error itemsQuery of
           Some e \<Rightarrow> ErrorPanel (couldnt_load ''Library'') (err_message e)
         | None \<Rightarrow> RenderThrows)
      else if q_data itemsQuery = None then Skeleton
      else Loaded)"

definition LibraryList_view_old :: "'a QueryResult \<Rightarrow> view" where
  "LibraryList_view_old itemsQuery =
     (if q_isLoading itemsQuery \<or> q_data itemsQuery = None then Skeleton
      else if q_isError itemsQuery then
        (case q_error itemsQuery of
           Some e \<Rightarrow> ErrorPanel (couldnt_load ''Library'') (err_message e)
         | None \<Rightarrow> RenderThrows)
      else Loaded)"

text \<open>
  The sibling panels of \<open>TasksPage.tsx\<close>: \<open>RunDetailDialog\<close>, the runs of \<open>TaskDialog\<close>
  and the task list of \<open>TasksPage\<close>, each \<open>isLoading ? ... : isError ? ... : ...\<close>.
\<close>

definition RunDetailDialog_view :: "'a QueryResult \<Rightarrow> view" where
  "RunDetailDialog_view q =
     (if q_isLoading q then Skeleton
      else if q_isError q then
        ErrorPanel (couldnt_load ''Run detail'') (js ''Check backend connectivity and auth.'')
      else Loaded)"

definition TaskDialog_runs_view :: "'a QueryResult \<Rightarrow> view" where
  "TaskDialog_runs_view q =
     (if q_isLoading q then Skeleton
      else if q_isError q then
        ErrorPanel (couldnt_load ''Runs'') (js ''Check backend connectivity and auth.'')
      else Loaded)"

definition TasksPage_view :: "'a QueryResult \<Rightarrow> view" where
  "TasksPage_view q =
     (if q_isLoading q then Skeleton
      else if q_isError q then
        ErrorPanel (couldnt_load ''Tasks'')
          (js ''Check backend connectivity/auth and that memory tables exist.'')
      else Loaded)"

text \<open>A query that has failed with the given message, with no data.\<close>

definition failed_query :: "jstring \<Rightarrow> 'a QueryResult" where
  "failed_query msg =
     \<lparr>q_data = None, q_isLoading = False, q_isError = True,
      q_error = Some \<lparr>err_message = msg\<rparr>\<rparr>"

text \<open>A run, a library item and a link for the worked instances.\<close>

definition sample_run :: RunPublic where
  "sample_run =
     \<lparr>r_id = js ''r1'', r_task_id = js ''t1'', r_targets = [], r_started_at = None,
      r_ended_at = None, r_status = js ''success'', r_summary = None\<rparr>"

definition sample_item :: "string \<Rightarrow> LibraryItemPublic" where
  "sample_item name =
     \<lparr>li_id = js name, li_workflow_key = js ''github_api'', li_kind = Recipe,
      li_title = js name, li_body_mdc = [], li_tags = [], li_source_refs = [],
      li_promotion_mode = Auto, li_created_at = None, li_last_used_at = None,
      li_superseded_by_id = None\<rparr>"

definition sample_link :: "RunLibraryRelation \<Rightarrow> string \<Rightarrow> RunMemoryLinkPublic" where
  "sample_link rel name = \<lparr>relation = rel, created_at = None, library_item = sample_item name\<rparr>"

section \<open>Body previews (LibraryList.tsx)\<close>










section \<open>The visible task list (TasksPage in TasksPage.tsx)\<close>




text \<open>
  \<^verbatim>\<open>
  const score = (task: TaskPublic) => {
    const raw = task.last_touched_at || task.created_at
    if (!raw) return 0
    const parsed = new Date(raw).getTime()
    return Number.isNaN(parsed) ? 0 : parsed
  }
  \<close>
  \<open>getTime\<close> stands for \<open>new Date(raw).getTime()\<close>, in milliseconds, \<open>None\<close> for \<open>NaN\<close>;
  the date parser is the engine's and is a parameter. \<open>null\<close> and the empty string are
  falsy.
\<close>

definition falsy :: "jstring option \<Rightarrow> bool" where
  "falsy v = (case v of None \<Rightarrow> True | Some s \<Rightarrow> s = [])"

definition score :: "(jstring \<Rightarrow> int option) \<Rightarrow> TaskPublic \<Rightarrow> int" where
  "score getTime task =
     (let raw = (if falsy (t_last_touched_at task) then t_created_at task
                 else t_last_touched_at task)
      in if falsy raw then 0
         else (case getTime (the raw) of None \<Rightarrow> 0 | Some parsed \<Rightarrow> parsed))"







text \<open>Fetched tasks and a date parser for the worked instances.\<close>

definition sample_tasks :: "TaskPublic list" where
  "sample_tasks =
     [sample_task,
      sample_task\<lparr>t_title := js ''Add API'', t_last_touched_at := Some (js ''2026-01-06T10:00:00Z'')\<rparr>,
      sample_task\<lparr>t_title := js ''Deploy db'', t_workflow_key := js ''db_sync'',
        t_last_touched_at := Some (js ''yesterday'')\<rparr>,
      sample_task\<lparr>t_title := js ''Audit'', t_workflow_key := js ''db_sync'',
        t_last_touched_at := Some []\<rparr>]"

definition sample_getTime :: "jstring \<Rightarrow> int option" where
  "sample_getTime =
     map_of [(js ''2026-01-05T10:00:00Z'', 1767607200000),
             (js ''2026-01-06T10:00:00Z'', 1767693600000)]"

section \<open>The Library Store\<close>

text \<open>
  Modelled from the spec: the Library Store, that is the stored LibraryItem and the
  operations \<open>create\<close>, \<open>supersede\<close> and \<open>list\<close>, is not among the sources, which hold
  only the client of its read contract (\<open>LibraryItemPublic\<close>, \<open>readLibraryItems\<close>). The
  definitions of this section follow sections 3, 4.3, 5 and 6 of the specification.

  A LibraryItem is \<open>{id, workflow_key, kind, title, body, tags, source_refs,
  promotion_mode, created_at, last_used_at, superseded_by_id}\<close>. Ids are generated by the
  store; here the id of an item is the number of items created before it. Times are
  readings of the store's clock.
\<close>

record LibraryItem =
  item_id :: nat
  item_workflow_key :: jstring
  item_kind :: LibraryItemKind
  item_title :: jstring
  item_body :: jstring
  item_tags :: "(jstring \<times> json) list"
  item_source_refs :: "json list"
  item_promotion_mode :: PromotionMode
  item_created_at :: nat
  item_last_used_at :: "nat option"
  item_superseded_by_id :: "nat option"

text \<open>Modelled from the spec: the \<open>fields\<close> and \<open>new_fields\<close> a caller supplies.\<close>

record LibraryItemFields =
  nf_workflow_key :: jstring
  nf_kind :: LibraryItemKind
  nf_title :: jstring
  nf_body :: jstring
  nf_tags :: "(jstring \<times> json) list"
  nf_source_refs :: "json list"
  nf_promotion_mode :: PromotionMode

text \<open>Modelled from the spec: the store holds its items in the order of their creation.\<close>

type_synonym LibraryStore = "LibraryItem list"

text \<open>Modelled from the spec: the lookup of a stored item by its id.\<close>

definition find_item :: "nat \<Rightarrow> LibraryStore \<Rightarrow> LibraryItem option" where
  "find_item i store = find (\<lambda>item. item_id item = i) store"

text \<open>
  Modelled from the spec: \<open>create(fields)\<close> gives a new LibraryItem with
  \<open>superseded_by_id = null\<close> (current) and \<open>created_at = now\<close>.
\<close>

definition new_item :: "nat \<Rightarrow> LibraryItemFields \<Rightarrow> LibraryStore \<Rightarrow> LibraryItem" where
  "new_item now new_fields store =
     \<lparr>item_id = length store, item_workflow_key = nf_workflow_key new_fields,
      item_kind = nf_kind new_fields, item_title = nf_title new_fields, item_body = nf_body new_fields,
      item_tags = nf_tags new_fields, item_source_refs = nf_source_refs new_fields,
      item_promotion_mode = nf_promotion_mode new_fields, item_created_at = now,
      item_last_used_at = None, item_superseded_by_id = None\<rparr>"

text \<open>
  Modelled from the spec: \<open>create\<close> returns the new item and adds it to the store.
\<close>

definition library_create ::
  "nat \<Rightarrow> LibraryItemFields \<Rightarrow> LibraryStore \<Rightarrow> LibraryItem \<times> LibraryStore" where
  "library_create now new_fields store =
     (new_item now new_fields store, store @ [new_item now new_fields store])"

text \<open>Modelled from the spec: step (c) of \<open>supersede\<close>, \<open>old.superseded_by_id = new.id\<close>.\<close>

definition set_superseded_by :: "nat \<Rightarrow> nat \<Rightarrow> LibraryStore \<Rightarrow> LibraryStore" where
  "set_superseded_by old_id new_id store =
     map (\<lambda>item. if item_id item = old_id then item\<lparr>item_superseded_by_id := Some new_id\<rparr>
                  else item) store"

text \<open>
  Modelled from the spec: \<open>supersede(old_id, new_fields)\<close>, atomically: (a) verify the old
  item exists and its \<open>superseded_by_id\<close> is still null; (b) create a new item with
  \<open>new_fields\<close>; (c) set \<open>old.superseded_by_id = new.id\<close>. If the old item's
  \<open>superseded_by_id\<close> is already non-null it fails with ConflictError, an unknown id is
  NotFound. The result is the outcome and the store after the call; a failed call is
  rolled back.
\<close>

definition library_supersede ::
  "nat \<Rightarrow> nat \<Rightarrow> LibraryItemFields \<Rightarrow> LibraryStore
     \<Rightarrow> (store_error + LibraryItem) \<times> LibraryStore" where
  "library_supersede now old_id new_fields store =
     (case find_item old_id store of
        None \<Rightarrow> (Inl NotFound, store)
      | Some old \<Rightarrow>
          if item_superseded_by_id old \<noteq> None then (Inl ConflictError, store)
          else (case library_create now new_fields store of
                  (new, store') \<Rightarrow> (Inr new, set_superseded_by old_id (item_id new) store')))"

text \<open>
  Modelled from the spec: every mutation is a single atomic transaction, so a history of
  the store, concurrent callers included, is a sequence of calls in the order in which
  they commit.
\<close>

datatype library_call =
  Create nat LibraryItemFields
| Supersede nat nat LibraryItemFields

text \<open>Modelled from the spec: the store after one call, and after a history of calls.\<close>

fun library_step :: "library_call \<Rightarrow> LibraryStore \<Rightarrow> LibraryStore" where
  "library_step (Create now new_fields) store = snd (library_create now new_fields store)"
| "library_step (Supersede now old_id new_fields) store =
     snd (library_supersede now old_id new_fields store)"

definition library_run :: "library_call list \<Rightarrow> LibraryStore \<Rightarrow> LibraryStore" where
  "library_run calls store = fold library_step calls store"

text \<open>
  Modelled from the spec: whether a call is a \<open>supersede\<close> of the given item that succeeds
  in the given store.
\<close>

fun supersede_wins :: "nat \<Rightarrow> library_call \<Rightarrow> LibraryStore \<Rightarrow> bool" where
  "supersede_wins i (Create now new_fields) store = False"
| "supersede_wins i (Supersede now old_id new_fields) store =
     (old_id = i \<and> isl (fst (library_supersede now old_id new_fields store)) = False)"

text \<open>
  Modelled from the spec: the number of calls of a history that supersede the given item
  and succeed, the winners of the race for it.
\<close>

fun winners :: "nat \<Rightarrow> library_call list \<Rightarrow> LibraryStore \<Rightarrow> nat" where
  "winners i [] store = 0"
| "winners i (call # calls) store =
     (if supersede_wins i call store then 1 else 0) + winners i calls (library_step call store)"

text \<open>
  Modelled from the spec: item A superseded by B means \<open>A.superseded_by_id = B.id\<close>; the
  item with \<open>superseded_by_id = null\<close> at the end of a chain is current. A supersede chain
  is the set of versions linked by \<open>superseded_by_id\<close>, in either direction.
\<close>

definition successor :: "LibraryStore \<Rightarrow> nat \<Rightarrow> nat option" where
  "successor store i =
     (case find_item i store of None \<Rightarrow> None | Some item \<Rightarrow> item_superseded_by_id item)"

text \<open>Modelled from the spec: an item is current when its \<open>superseded_by_id\<close> is null.\<close>

definition is_current :: "LibraryStore \<Rightarrow> nat \<Rightarrow> bool" where
  "is_current store i =
     (case find_item i store of None \<Rightarrow> False | Some item \<Rightarrow> item_superseded_by_id item = None)"

text \<open>
  Modelled from the spec: the supersede chain of an item, the versions linked to it by
  \<open>superseded_by_id\<close> forwards or backwards.
\<close>

inductive same_chain :: "LibraryStore \<Rightarrow> nat \<Rightarrow> nat \<Rightarrow> bool" for store where
  chain_self: "same_chain store a a"
| chain_newer: "same_chain store a b \<Longrightarrow> successor store b = Some c \<Longrightarrow> same_chain store a c"
| chain_older: "same_chain store a c \<Longrightarrow> successor store b = Some c \<Longrightarrow> same_chain store a b"

text \<open>
  Modelled from the spec: chain traversal (head lookup from any historical id) walks
  \<open>superseded_by_id\<close> forward until null.
\<close>

inductive reaches :: "LibraryStore \<Rightarrow> nat \<Rightarrow> nat \<Rightarrow> bool" for store where
  reaches_self: "reaches store a a"
| reaches_step: "successor store a = Some b \<Longrightarrow> reaches store b c \<Longrightarrow> reaches store a c"






text \<open>
  Modelled from the spec: the invariant of the store's histories. The item at position
  \<open>k\<close> has id \<open>k\<close>, and a \<open>superseded_by_id\<close> points to a stored item that was created
  later.
\<close>

definition store_inv :: "LibraryStore \<Rightarrow> bool" where
  "store_inv store =
     (\<forall>k < length store. item_id (store ! k) = k
        \<and> (\<forall>j. item_superseded_by_id (store ! k) = Some j \<longrightarrow> k < j \<and> j < length store))"

text \<open>
  Modelled from the spec: an item lost to a race, stored with a non-null
  \<open>superseded_by_id\<close>.
\<close>

definition superseded_in :: "LibraryStore \<Rightarrow> nat \<Rightarrow> bool" where
  "superseded_in store i =
     (case find_item i store of None \<Rightarrow> False | Some item \<Rightarrow> item_superseded_by_id item \<noteq> None)"

text \<open>Modelled from the spec: fields of a library item for the worked instances.\<close>

definition sample_fields :: "string \<Rightarrow> LibraryItemFields" where
  "sample_fields name =
     \<lparr>nf_workflow_key = js ''foo'', nf_kind = Recipe, nf_title = js name, nf_body = [],
      nf_tags = [], nf_source_refs = [], nf_promotion_mode = Auto\<rparr>"

section \<open>Theorems\<close>

subsection \<open>Bucket names\<close>





subsection \<open>Trimming\<close>

lemma dropWhile_all_iff: "(\<forall>x \<in> set (dropWhile P xs). P x) \<longleftrightarrow> (\<forall>x \<in> set xs. P x)"
  by (induction xs) auto

lemma dropWhile_skip: "list_all P xs \<Longrightarrow> dropWhile P (xs @ ys) = dropWhile P ys"
  by (induction xs) auto

lemma last_dropWhile_keep: "dropWhile P xs \<noteq> [] \<Longrightarrow> last (dropWhile P xs) = last xs"
  by (induction xs) (auto split: if_splits)

lemma trim_eq_Nil_iff: "trim s = [] \<longleftrightarrow> list_all is_ws s"
  by (simp add: trim_def trimEnd_def trimStart_def dropWhile_eq_Nil_conv dropWhile_all_iff list_all_iff)

lemma trim_pad:
  assumes "list_all is_ws l" "list_all is_ws r"
  shows "trim (l @ s @ r) = trim s"
proof -
  have 1: "dropWhile is_ws (l @ s @ r) = dropWhile is_ws (s @ r)"
    using assms(1) by (rule dropWhile_skip)
  show ?thesis
  proof (cases "list_all is_ws s")
    case True
    then have "list_all is_ws (l @ s @ r)" using assms by simp
    then show ?thesis using True by (simp only: trim_eq_Nil_iff [symmetric])
  next
    case False
    then have 2: "dropWhile is_ws (s @ r) = dropWhile is_ws s @ r"
      by (auto simp: list_all_iff dropWhile_append1)
    have 3: "list_all is_ws (rev r)" using assms(2) by (simp add: list_all_iff)
    show ?thesis
      by (simp add: trim_def trimEnd_def trimStart_def 1 2 dropWhile_skip [OF 3])
  qed
qed

lemma trim_ends:
  assumes "trim s \<noteq> []"
  shows "\<not> is_ws (hd (trim s)) \<and> \<not> is_ws (last (trim s))"
proof -
  define d where "d = dropWhile is_ws s"
  define e where "e = dropWhile is_ws (rev d)"
  have t: "trim s = rev e" by (simp add: trim_def trimEnd_def trimStart_def d_def e_def)
  with assms have e: "e \<noteq> []" by simp
  then have d: "d \<noteq> []" by (auto simp: e_def)
  have "\<not> is_ws (hd e)" using e unfolding e_def by (rule hd_dropWhile)
  moreover have "\<not> is_ws (hd d)" using d unfolding d_def by (rule hd_dropWhile)
  moreover have "last e = hd d"
    using e d by (simp add: e_def last_dropWhile_keep last_rev)
  ultimately show ?thesis using e by (simp add: t hd_rev last_rev)
qed

lemma trim_fix:
  assumes "xs \<noteq> []" "\<not> is_ws (hd xs)" "\<not> is_ws (last xs)"
  shows "trim xs = xs"
proof -
  have 1: "dropWhile is_ws xs = xs"
    using assms by (simp add: dropWhile_eq_self_iff)
  have 2: "dropWhile is_ws (rev xs) = rev xs"
    using assms by (simp add: dropWhile_eq_self_iff hd_rev)
  show ?thesis by (simp add: trim_def trimEnd_def trimStart_def 1 2)
qed

lemma trim_idem: "trim (trim s) = trim s"
proof (cases "trim s = []")
  case True
  moreover have "trim [] = []" by (simp add: trim_def trimEnd_def trimStart_def)
  ultimately show ?thesis by simp
next
  case False
  then show ?thesis using trim_ends [OF False] by (simp add: trim_fix)
qed

subsection \<open>List requests\<close>

lemma trim_or_undefined_blank: "list_all is_ws w \<Longrightarrow> trim_or_undefined (Some w) = None"
  by (simp add: trim_or_undefined_def trim_eq_Nil_iff)

lemma trim_or_undefined_pad:
  "list_all is_ws l \<Longrightarrow> list_all is_ws r \<Longrightarrow>
   trim_or_undefined (Some (l @ s @ r)) = trim_or_undefined (Some s)"
  by (simp add: trim_or_undefined_def trim_pad)

lemma trim_or_undefined_cases:
  "map_option QString (trim_or_undefined v) =
     (case v of None \<Rightarrow> None
      | Some s \<Rightarrow> if list_all is_ws s then None else Some (QString (trim s)))"
  by (simp add: trim_or_undefined_def trim_eq_Nil_iff split: option.splits)

lemma names_distinct:
  "js ''workflow_key'' \<noteq> js ''status''" "js ''workflow_key'' \<noteq> js ''q''"
  "js ''status'' \<noteq> js ''q''" "js ''kind'' \<noteq> js ''q''" "js ''workflow_key'' \<noteq> js ''kind''"
  by (simp_all add: js_def)

lemma readTasks_sent:
  "query_value (readTasks (\<lambda>opts. opts) params) (js ''workflow_key'')
     = map_option QString (trim_or_undefined (tp_workflow_key params))"
  "query_value (readTasks (\<lambda>opts. opts) params) (js ''status'')
     = map_option QString (trim_or_undefined (tp_status params))"
  "query_value (readTasks (\<lambda>opts. opts) params) (js ''q'')
     = map_option QString (trim_or_undefined (tp_q params))"
  using names_distinct by (simp_all add: query_value_def readTasks_def)

lemma readLibraryItems_sent:
  "query_value (readLibraryItems (\<lambda>opts. opts) params) (js ''workflow_key'')
     = map_option QString (trim_or_undefined (lp_workflow_key params))"
  "query_value (readLibraryItems (\<lambda>opts. opts) params) (js ''q'')
     = map_option QString (trim_or_undefined (lp_q params))"
  using names_distinct by (simp_all add: query_value_def readLibraryItems_def)

text \<open>
  Claim C8. In a task list request the filters \<open>workflow_key\<close>, \<open>status\<close> and \<open>q\<close>,
  and in a library list request the filters \<open>workflow_key\<close> and \<open>q\<close> (it has no
  \<open>status\<close>), are sent trimmed and are omitted when nothing remains after trimming. So
  a filter of white space only gives the same request, and with it the same result of
  whatever client sends it, as no filter, and white space around a filter changes nothing.
\<close>

theorem list_filters_whitespace_insensitive:
  "(query_value (readTasks (\<lambda>opts. opts) params) (js ''workflow_key'')
       = sent_filter (tp_workflow_key params)
     \<and> query_value (readTasks (\<lambda>opts. opts) params) (js ''status'')
       = sent_filter (tp_status params)
     \<and> query_value (readTasks (\<lambda>opts. opts) params) (js ''q'') = sent_filter (tp_q params)
     \<and> query_value (readLibraryItems (\<lambda>opts. opts) lparams) (js ''workflow_key'')
       = sent_filter (lp_workflow_key lparams)
     \<and> query_value (readLibraryItems (\<lambda>opts. opts) lparams) (js ''q'')
       = sent_filter (lp_q lparams))
   \<and> (list_all is_ws w \<longrightarrow>
        readTasks request (params\<lparr>tp_workflow_key := Some w\<rparr>)
          = readTasks request (params\<lparr>tp_workflow_key := None\<rparr>)
      \<and> readTasks request (params\<lparr>tp_status := Some w\<rparr>)
          = readTasks request (params\<lparr>tp_status := None\<rparr>)
      \<and> readTasks request (params\<lparr>tp_q := Some w\<rparr>)
          = readTasks request (params\<lparr>tp_q := None\<rparr>)
      \<and> readLibraryItems lrequest (lparams\<lparr>lp_workflow_key := Some w\<rparr>)
          = readLibraryItems lrequest (lparams\<lparr>lp_workflow_key := None\<rparr>)
      \<and> readLibraryItems lrequest (lparams\<lparr>lp_q := Some w\<rparr>)
          = readLibraryItems lrequest (lparams\<lparr>lp_q := None\<rparr>))
   \<and> (list_all is_ws l \<and> list_all is_ws r \<longrightarrow>
        readTasks request (params\<lparr>tp_workflow_key := Some (l @ s @ r)\<rparr>)
          = readTasks request (params\<lparr>tp_workflow_key := Some s\<rparr>)
      \<and> readTasks request (params\<lparr>tp_status := Some (l @ s @ r)\<rparr>)
          = readTasks request (params\<lparr>tp_status := Some s\<rparr>)
      \<and> readTasks request (params\<lparr>tp_q := Some (l @ s @ r)\<rparr>)
          = readTasks request (params\<lparr>tp_q := Some s\<rparr>)
      \<and> readLibraryItems lrequest (lparams\<lparr>lp_workflow_key := Some (l @ s @ r)\<rparr>)
          = readLibraryItems lrequest (lparams\<lparr>lp_workflow_key := Some s\<rparr>)
      \<and> readLibraryItems lrequest (lparams\<lparr>lp_q := Some (l @ s @ r)\<rparr>)
          = readLibraryItems lrequest (lparams\<lparr>lp_q := Some s\<rparr>))"
proof -
  have sent: "map_option QString (trim_or_undefined v) = sent_filter v" for v
    by (simp add: trim_or_undefined_cases sent_filter_def)
  have none: "trim_or_undefined None = None"
    by (simp add: trim_or_undefined_def)
  have blank: "trim_or_undefined (Some w) = trim_or_undefined None" if "list_all is_ws w"
    using that by (simp only: trim_or_undefined_blank none)
  have pad: "trim_or_undefined (Some (l @ s @ r)) = trim_or_undefined (Some s)"
    if "list_all is_ws l \<and> list_all is_ws r"
    using that by (simp only: trim_or_undefined_pad)
  show ?thesis
    apply (intro conjI impI)
    apply (simp_all only: readTasks_sent readLibraryItems_sent sent)
    apply (simp_all add: readTasks_def readLibraryItems_def blank pad)
    done
qed

theorem list_filters_whitespace_insensitive_witness:
  "readTasks (\<lambda>opts. opts)
      \<lparr>tp_workflow_key = Some (js ''  ''), tp_status = None, tp_q = None, tp_skip = Some 0,
       tp_limit = Some 100\<rparr>
    = readTasks (\<lambda>opts. opts)
      \<lparr>tp_workflow_key = None, tp_status = None, tp_q = None, tp_skip = Some 0,
       tp_limit = Some 100\<rparr>
   \<and> readLibraryItems (\<lambda>opts. opts)
      \<lparr>lp_workflow_key = None, lp_kind = None, lp_q = Some ([32] @ js ''deploy'' @ [9, 10]),
       lp_current_only = Some True, lp_skip = Some 0, lp_limit = Some 200\<rparr>
    = readLibraryItems (\<lambda>opts. opts)
      \<lparr>lp_workflow_key = None, lp_kind = None, lp_q = Some (js ''deploy''),
       lp_current_only = Some True, lp_skip = Some 0, lp_limit = Some 200\<rparr>"
  using list_filters_whitespace_insensitive [of
      "\<lparr>tp_workflow_key = None, tp_status = None, tp_q = None, tp_skip = Some 0,
        tp_limit = Some 100\<rparr>"
      "\<lparr>lp_workflow_key = None, lp_kind = None, lp_q = None,
        lp_current_only = Some True, lp_skip = Some 0, lp_limit = Some 200\<rparr>"
      "js ''  ''" "\<lambda>opts. opts" "\<lambda>opts. opts" "[32]" "[9, 10]" "js ''deploy''"]
  by (simp add: js_def is_ws_def)

subsection \<open>Renaming a task\<close>

lemma commitRename_blank:
  "list_all is_ws (titleDraft s) \<Longrightarrow>
   commitRename s = (s\<lparr>titleError := Some empty_title_message\<rparr>, None)"
  by (simp add: commitRename_def trim_eq_Nil_iff)

lemma commitRename_same:
  "trim (titleDraft s) = trim (taskTitle s) \<Longrightarrow> snd (commitRename s) = None"
  by (simp add: commitRename_def Let_def)

lemma commitRename_issue:
  "\<not> list_all is_ws (titleDraft s) \<Longrightarrow> trim (titleDraft s) \<noteq> trim (taskTitle s) \<Longrightarrow>
   commitRename s = (s, Some (trim (titleDraft s)))"
  by (simp add: commitRename_def trim_eq_Nil_iff)

lemma updateTaskTitle_trimmed:
  "trim d \<noteq> [] \<Longrightarrow> trim d \<noteq> trim (t_title task) \<Longrightarrow>
   updateTaskTitle now (trim d) task = Inr (task\<lparr>t_title := trim d, t_last_touched_at := Some now\<rparr>)"
  by (simp add: updateTaskTitle_def trim_idem)

lemma renameTask_blank:
  "list_all is_ws (titleDraft s) \<Longrightarrow>
   renameTask now (s, task) = (s\<lparr>titleError := Some empty_title_message\<rparr>, task)"
  by (simp add: renameTask_def commitRename_blank)

lemma renameTask_noop:
  "trim (titleDraft s) = trim (taskTitle s) \<Longrightarrow> snd (renameTask now (s, task)) = task"
  using commitRename_same [of s] by (cases "commitRename s") (simp add: renameTask_def)

lemma renameTask_update:
  assumes "\<not> list_all is_ws (titleDraft s)" "trim (titleDraft s) \<noteq> trim (taskTitle s)"
    and "taskTitle s = t_title task"
  shows "renameTask now (s, task) =
     (renameSuccess (task\<lparr>t_title := trim (titleDraft s), t_last_touched_at := Some now\<rparr>) s,
      task\<lparr>t_title := trim (titleDraft s), t_last_touched_at := Some now\<rparr>)"
proof -
  have "updateTaskTitle now (trim (titleDraft s)) task
      = Inr (task\<lparr>t_title := trim (titleDraft s), t_last_touched_at := Some now\<rparr>)"
    using assms by (simp add: updateTaskTitle_trimmed trim_eq_Nil_iff)
  then show ?thesis
    using assms by (simp add: renameTask_def commitRename_issue)
qed

lemma renameTask_sync:
  assumes sync: "taskTitle s = t_title task"
  shows "taskTitle (fst (renameTask now (s, task))) = t_title (snd (renameTask now (s, task)))"
proof (cases "list_all is_ws (titleDraft s)")
  case True
  then show ?thesis using sync by (simp add: renameTask_blank)
next
  case False
  show ?thesis
  proof (cases "trim (titleDraft s) = trim (taskTitle s)")
    case True
    moreover from False have "trim (titleDraft s) \<noteq> []"
      by (simp add: trim_eq_Nil_iff)
    ultimately have "commitRename s = (cancelRename s, None)"
      by (simp add: commitRename_def)
    then show ?thesis using sync
      by (simp add: renameTask_def cancelRename_def)
  next
    case neq: False
    show ?thesis
      by (simp add: renameTask_update [OF False neq sync] renameSuccess_def)
  qed
qed

text \<open>
  Claim C3. A rename whose draft is empty or white space only reports the validation
  error \<open>Title can't be empty.\<close>, issues no update and leaves the stored Task as it is.
  A draft whose trimmed value is not empty and differs from the trimmed current title
  issues an update with the trimmed draft, after which the stored title and the dialog's
  title are the trimmed draft.
\<close>

theorem rename_validation:
  "(list_all is_ws (titleDraft s) \<longrightarrow>
      commitRename s = (s\<lparr>titleError := Some empty_title_message\<rparr>, None)
      \<and> renameTask now (s, task) = (s\<lparr>titleError := Some empty_title_message\<rparr>, task))
   \<and> (\<not> list_all is_ws (titleDraft s) \<and> trim (titleDraft s) \<noteq> trim (taskTitle s) \<longrightarrow>
      snd (commitRename s) = Some (trim (titleDraft s))
      \<and> (taskTitle s = t_title task \<longrightarrow>
           t_title (snd (renameTask now (s, task))) = trim (titleDraft s)
           \<and> taskTitle (fst (renameTask now (s, task))) = trim (titleDraft s)
           \<and> titleError (fst (renameTask now (s, task))) = None))"
proof (intro conjI impI)
  assume "list_all is_ws (titleDraft s)"
  then show "commitRename s = (s\<lparr>titleError := Some empty_title_message\<rparr>, None)"
    and "renameTask now (s, task) = (s\<lparr>titleError := Some empty_title_message\<rparr>, task)"
    by (simp_all add: commitRename_blank renameTask_blank)
next
  assume a: "\<not> list_all is_ws (titleDraft s) \<and> trim (titleDraft s) \<noteq> trim (taskTitle s)"
  then show "snd (commitRename s) = Some (trim (titleDraft s))"
    by (simp add: commitRename_issue)
  assume sync: "taskTitle s = t_title task"
  from a sync have r: "renameTask now (s, task) =
     (renameSuccess (task\<lparr>t_title := trim (titleDraft s), t_last_touched_at := Some now\<rparr>) s,
      task\<lparr>t_title := trim (titleDraft s), t_last_touched_at := Some now\<rparr>)"
    by (simp add: renameTask_update)
  show "t_title (snd (renameTask now (s, task))) = trim (titleDraft s)"
    and "taskTitle (fst (renameTask now (s, task))) = trim (titleDraft s)"
    and "titleError (fst (renameTask now (s, task))) = None"
    by (simp_all add: r renameSuccess_def)
qed

theorem rename_validation_witness:
  "renameTask (js ''2026-02-01T09:00:00Z'')
      (changeDraft [32, 9, 32] (startRename (initialDialog sample_task)), sample_task)
    = ((changeDraft [32, 9, 32] (startRename (initialDialog sample_task)))
         \<lparr>titleError := Some empty_title_message\<rparr>, sample_task)
   \<and> t_title (snd (renameTask (js ''2026-02-01T09:00:00Z'')
        (changeDraft (js '' Fix logout '') (startRename (initialDialog sample_task)), sample_task)))
      = js ''Fix logout''"
proof -
  have t: "trim (js '' Fix logout '') = js ''Fix logout''" "trim (js ''Fix login'') = js ''Fix login''"
    by (simp_all add: trim_def trimEnd_def trimStart_def is_ws_def js_def)
  have w: "\<not> list_all is_ws (js '' Fix logout '')" "list_all is_ws [32, 9, 32]"
    by (simp_all add: is_ws_def js_def)
  have "js ''Fix logout'' \<noteq> js ''Fix login''"
    by (simp add: js_def)
  with t w show ?thesis
    using rename_validation [of "changeDraft [32, 9, 32] (startRename (initialDialog sample_task))"
        "js ''2026-02-01T09:00:00Z''" sample_task]
      rename_validation [of "changeDraft (js '' Fix logout '') (startRename (initialDialog sample_task))"
        "js ''2026-02-01T09:00:00Z''" sample_task]
    by (simp add: changeDraft_def startRename_def initialDialog_def sample_task_def)
qed

text \<open>
  Claim C7. Renaming a Task to a title whose trimmed value equals the trimmed current
  title issues no update and leaves the stored Task unchanged. Rename is idempotent:
  entering the same draft a second time, after the first rename has gone through the
  store, leaves the stored Task as the first rename left it.
\<close>

theorem rename_same_title_noop:
  "(trim (titleDraft s) = trim (taskTitle s) \<longrightarrow>
      snd (commitRename s) = None \<and> snd (renameTask now (s, task)) = task)
   \<and> (taskTitle s = t_title task \<longrightarrow>
      snd (renameTask now' (changeDraft d (startRename (fst (renameTask now (changeDraft d s, task)))),
             snd (renameTask now (changeDraft d s, task))))
        = snd (renameTask now (changeDraft d s, task)))"
proof (intro conjI impI)
  assume "trim (titleDraft s) = trim (taskTitle s)"
  then show "snd (commitRename s) = None" "snd (renameTask now (s, task)) = task"
    by (simp_all add: commitRename_same renameTask_noop)
next
  assume sync: "taskTitle s = t_title task"
  define r where "r = renameTask now (changeDraft d s, task)"
  define s2 where "s2 = changeDraft d (startRename (fst r))"
  have sync1: "taskTitle (changeDraft d s) = t_title task"
    using sync by (simp add: changeDraft_def)
  have sync2: "taskTitle s2 = t_title (snd r)"
    using renameTask_sync [OF sync1, of now] by (simp add: s2_def r_def changeDraft_def startRename_def)
  have draft: "titleDraft s2 = d" "titleDraft (changeDraft d s) = d"
    by (simp_all add: s2_def changeDraft_def)
  have "snd (renameTask now' (s2, snd r)) = snd r"
  proof (cases "list_all is_ws d")
    case True
    then show ?thesis using draft by (simp add: renameTask_blank)
  next
    case False
    show ?thesis
    proof (cases "trim d = trim (t_title task)")
      case True
      then have "snd r = task"
        unfolding r_def using renameTask_noop [of "changeDraft d s" now task] sync1 draft by simp
      with True sync2 draft show ?thesis by (simp add: renameTask_noop)
    next
      case neq: False
      have "t_title (snd r) = trim d"
        unfolding r_def
        using renameTask_update [of "changeDraft d s" task now] False neq sync1 draft by simp
      with sync2 draft show ?thesis by (simp add: renameTask_noop trim_idem)
    qed
  qed
  then show "snd (renameTask now' (changeDraft d (startRename (fst (renameTask now (changeDraft d s, task)))),
             snd (renameTask now (changeDraft d s, task))))
        = snd (renameTask now (changeDraft d s, task))"
    by (simp add: s2_def r_def)
qed

theorem rename_same_title_noop_witness:
  "snd (commitRename (changeDraft (js ''  Fix login '') (startRename (initialDialog sample_task)))) = None
   \<and> snd (renameTask (js ''2026-02-01T09:00:00Z'')
        (changeDraft (js ''  Fix login '') (startRename (initialDialog sample_task)), sample_task))
      = sample_task
   \<and> snd (renameTask (js ''2026-02-02T09:00:00Z'')
        (changeDraft (js '' Fix logout '') (startRename (fst (renameTask (js ''2026-02-01T09:00:00Z'')
              (changeDraft (js '' Fix logout '') (initialDialog sample_task), sample_task)))),
         snd (renameTask (js ''2026-02-01T09:00:00Z'')
              (changeDraft (js '' Fix logout '') (initialDialog sample_task), sample_task))))
      = snd (renameTask (js ''2026-02-01T09:00:00Z'')
              (changeDraft (js '' Fix logout '') (initialDialog sample_task), sample_task))"
proof -
  have t: "trim (js ''  Fix login '') = trim (js ''Fix login'')"
    by (simp add: trim_def trimEnd_def trimStart_def is_ws_def js_def)
  show ?thesis
    using rename_same_title_noop [of "changeDraft (js ''  Fix login '') (startRename (initialDialog sample_task))"
        "js ''2026-02-01T09:00:00Z''" sample_task "js ''2026-02-02T09:00:00Z''" "js '' Fix logout ''"]
      rename_same_title_noop [of "initialDialog sample_task"
        "js ''2026-02-01T09:00:00Z''" sample_task "js ''2026-02-02T09:00:00Z''" "js '' Fix logout ''"]
      t
    by (simp add: changeDraft_def startRename_def initialDialog_def sample_task_def)
qed

subsection \<open>Memory links by relation\<close>

lemma group_of_push:
  "group_of (group_push link g) r = group_of g r @ (if relation link = r then [link] else [])"
  by (cases r; cases "relation link") (simp_all add: group_push_def)

lemma group_of_fold:
  "group_of (fold group_push links g) r = group_of g r @ filter (\<lambda>l. relation l = r) links"
  by (induction links arbitrary: g) (simp_all add: group_of_push)

lemma group_of_empty: "group_of empty_groups r = []"
  by (cases r) (simp_all add: empty_groups_def)

lemma mset_by_relation:
  "mset (filter (\<lambda>l. relation l = Used) links) + mset (filter (\<lambda>l. relation l = Created) links)
   + mset (filter (\<lambda>l. relation l = Promoted) links)
   + mset (filter (\<lambda>l. relation l = Superseded) links) = mset links"
proof (induction links)
  case Nil
  show ?case by simp
next
  case (Cons l links)
  then show ?case by (cases "relation l") simp_all
qed

text \<open>
  Claim C4. The memory links of a run detail are grouped into the four groups used,
  created, promoted and superseded; the group of a relation is the sublist of the links
  with that relation, in input order, so every link is in the group its relation names
  and in no other, once for each time it occurs; without a run detail all four are empty.
\<close>

theorem grouped_by_relation:
  "group_of (grouped (Some d)) r = filter (\<lambda>l. relation l = r) (memory_links d)
   \<and> mset (used (grouped (Some d))) + mset (created (grouped (Some d)))
     + mset (promoted (grouped (Some d))) + mset (superseded (grouped (Some d)))
     = mset (memory_links d)
   \<and> group_of (grouped None) r = []"
proof -
  have g: "group_of (grouped (Some d)) r' = filter (\<lambda>l. relation l = r') (memory_links d)" for r'
    by (simp add: grouped_def group_of_fold group_of_empty)
  have "mset (used (grouped (Some d))) + mset (created (grouped (Some d)))
     + mset (promoted (grouped (Some d))) + mset (superseded (grouped (Some d)))
     = mset (memory_links d)"
    using g [of Used] g [of Created] g [of Promoted] g [of Superseded]
    by (simp only: group_of.simps mset_by_relation)
  moreover have "group_of (grouped None) r = []"
    by (simp add: grouped_def group_of_empty)
  ultimately show ?thesis using g by simp
qed


theorem grouped_by_relation_witness:
  "map (\<lambda>l. li_id (library_item l))
      (group_of (grouped (Some \<lparr>run = sample_run, events = [],
          memory_links = [sample_link Used ''a'', sample_link Created ''b'', sample_link Used ''c'']\<rparr>))
        Used)
    = [js ''a'', js ''c'']"
  using grouped_by_relation [of "\<lparr>run = sample_run, events = [],
      memory_links = [sample_link Used ''a'', sample_link Created ''b'', sample_link Used ''c'']\<rparr>" Used]
  by (simp add: sample_link_def sample_item_def)

subsection \<open>Error panels\<close>

text \<open>
  Claim C6 does not hold of \<open>LibraryList\<close>. When loading the library fails, the panel
  shows the message of the error object under its heading, so two failures with different
  internal messages are shown differently; the older variant does the same whenever it
  reaches its error branch. The sibling panels of \<open>TasksPage.tsx\<close> show a fixed line
  whatever the error is.
\<close>

theorem LibraryList_error_shows_message:
  "LibraryList_view (failed_query (js ''connect ECONNREFUSED 10.0.0.5:5432'') :: unit QueryResult)
     = ErrorPanel (couldnt_load ''Library'') (js ''connect ECONNREFUSED 10.0.0.5:5432'')
   \<and> LibraryList_view (failed_query (js ''Request failed with status code 500'') :: unit QueryResult)
     = ErrorPanel (couldnt_load ''Library'') (js ''Request failed with status code 500'')
   \<and> LibraryList_view (failed_query (js ''connect ECONNREFUSED 10.0.0.5:5432'') :: unit QueryResult)
     \<noteq> LibraryList_view (failed_query (js ''Request failed with status code 500'') :: unit QueryResult)
   \<and> LibraryList_view_old
        ((failed_query (js ''connect ECONNREFUSED 10.0.0.5:5432'')) \<lparr>q_data := Some ()\<rparr>)
     = ErrorPanel (couldnt_load ''Library'') (js ''connect ECONNREFUSED 10.0.0.5:5432'')
   \<and> RunDetailDialog_view (failed_query (js ''connect ECONNREFUSED 10.0.0.5:5432'') :: unit QueryResult)
     = RunDetailDialog_view (failed_query (js ''Request failed with status code 500'') :: unit QueryResult)"
  by (simp add: LibraryList_view_def LibraryList_view_old_def RunDetailDialog_view_def
      failed_query_def js_def)

lemma LibraryList_error_depends_on_message:
  "m \<noteq> m' \<Longrightarrow> LibraryList_view (failed_query m) \<noteq> LibraryList_view (failed_query m')"
  by (simp add: LibraryList_view_def failed_query_def)

lemma sibling_panels_fixed:
  "RunDetailDialog_view (failed_query m) = RunDetailDialog_view (failed_query m')"
  "TaskDialog_runs_view (failed_query m) = TaskDialog_runs_view (failed_query m')"
  "TasksPage_view (failed_query m) = TasksPage_view (failed_query m')"
  "titleError (renameError s) = Some rename_failed_message"
  by (simp_all add: RunDetailDialog_view_def TaskDialog_runs_view_def TasksPage_view_def
      failed_query_def renameError_def)

subsection \<open>Body previews\<close>

















subsection \<open>The visible task list\<close>

















lemma sample_scores:
  "score sample_getTime (sample_tasks ! 0) = 1767607200000"
  "score sample_getTime (sample_tasks ! 1) = 1767693600000"
  "score sample_getTime (sample_tasks ! 2) = 0"
  "score sample_getTime (sample_tasks ! 3) = 1767607200000"
  by (simp_all add: score_def falsy_def sample_getTime_def sample_tasks_def sample_task_def js_def)


subsection \<open>Library listings\<close>





subsection \<open>Supersede chains\<close>

lemma find_item_inv:
  assumes "store_inv s"
  shows "find_item a s = (if a < length s then Some (s ! a) else None)"
proof (cases "a < length s")
  case True
  from assms have ids: "\<And>k. k < length s \<Longrightarrow> item_id (s ! k) = k"
    unfolding store_inv_def by blast
  have "find (\<lambda>item. item_id item = a) s = Some (s ! a)"
    unfolding find_Some_iff using True ids by (intro exI [of _ a]) auto
  with True show ?thesis by (simp add: find_item_def)
next
  case False
  from assms have ids: "\<And>k. k < length s \<Longrightarrow> item_id (s ! k) = k"
    unfolding store_inv_def by blast
  have "find (\<lambda>item. item_id item = a) s = None"
    unfolding find_None_iff using False ids by (auto simp: in_set_conv_nth)
  with False show ?thesis by (simp add: find_item_def)
qed

lemma successor_inv:
  assumes "store_inv s" "successor s a = Some b"
  shows "a < b \<and> b < length s"
proof -
  from assms(2) have a: "a < length s" and p: "item_superseded_by_id (s ! a) = Some b"
    by (auto simp: successor_def find_item_inv [OF assms(1)] split: if_splits)
  with assms(1) show ?thesis unfolding store_inv_def by blast
qed

lemma is_current_successor: "is_current s h \<Longrightarrow> successor s h = None"
  by (auto simp: is_current_def successor_def split: option.splits)

lemma current_or_successor:
  assumes "store_inv s" "a < length s"
  shows "is_current s a \<or> (\<exists>b. successor s a = Some b)"
  using assms(2) by (auto simp: is_current_def successor_def find_item_inv [OF assms(1)])

lemma reaches_current:
  assumes "store_inv s"
  shows "a < length s \<Longrightarrow> \<exists>h. reaches s a h \<and> is_current s h"
proof (induction "length s - a" arbitrary: a rule: less_induct)
  case less
  show ?case
  proof (cases "is_current s a")
    case True
    then show ?thesis using reaches_self by blast
  next
    case False
    with current_or_successor [OF assms less.prems] obtain b where b: "successor s a = Some b"
      by blast
    from successor_inv [OF assms b] have "a < b" "b < length s" by simp_all
    then have "length s - b < length s - a" by simp
    from less.hyps [OF this \<open>b < length s\<close>] obtain h where "reaches s b h" "is_current s h"
      by blast
    with b show ?thesis using reaches_step by blast
  qed
qed

lemma same_chain_trans: "same_chain s b c \<Longrightarrow> same_chain s a b \<Longrightarrow> same_chain s a c"
proof (induction rule: same_chain.induct)
  case (chain_self x)
  then show ?case .
next
  case (chain_newer x y z)
  then show ?case using same_chain.chain_newer by blast
next
  case (chain_older x z y)
  then show ?case using same_chain.chain_older by blast
qed

lemma reaches_same_chain: "reaches s a b \<Longrightarrow> same_chain s a b"
proof (induction rule: reaches.induct)
  case (reaches_self a)
  show ?case by (rule chain_self)
next
  case (reaches_step a b c)
  have "same_chain s a b"
    using chain_self reaches_step.hyps(1) by (rule chain_newer)
  with reaches_step.IH show ?case by (rule same_chain_trans)
qed

lemma reaches_from_current: "reaches s h x \<Longrightarrow> is_current s h \<Longrightarrow> x = h"
  by (induction rule: reaches.induct) (auto dest: is_current_successor)

lemma reaches_head_unique:
  "reaches s a h \<Longrightarrow> is_current s h \<Longrightarrow> reaches s a h' \<Longrightarrow> is_current s h' \<Longrightarrow> h = h'"
proof (induction arbitrary: h' rule: reaches.induct)
  case (reaches_self a)
  from reaches_self(2) reaches_self(1) show ?case
    using reaches_from_current by blast
next
  case (reaches_step a b c)
  from reaches_step.prems(2) show ?case
  proof (cases rule: reaches.cases)
    case reaches_self
    with reaches_step.prems(3) reaches_step.hyps(1) show ?thesis
      by (auto dest: is_current_successor)
  next
    case (reaches_step b')
    with reaches_step.hyps(1) have "reaches s b h'" by simp
    with reaches_step.IH reaches_step.prems show ?thesis by blast
  qed
qed

lemma reaches_successor_iff:
  assumes "successor s b = Some c" "is_current s h"
  shows "reaches s b h \<longleftrightarrow> reaches s c h"
proof
  assume "reaches s b h"
  then show "reaches s c h"
  proof (cases rule: reaches.cases)
    case reaches_self
    with assms show ?thesis by (auto dest: is_current_successor)
  next
    case (reaches_step c')
    with assms(1) show ?thesis by simp
  qed
next
  assume "reaches s c h"
  with assms(1) show "reaches s b h" by (rule reaches_step)
qed

lemma same_chain_reaches:
  "same_chain s a b \<Longrightarrow> is_current s h \<Longrightarrow> reaches s a h \<longleftrightarrow> reaches s b h"
proof (induction rule: same_chain.induct)
  case (chain_self a)
  show ?case by simp
next
  case (chain_newer a b c)
  with reaches_successor_iff [of s b c h] show ?case by simp
next
  case (chain_older a c b)
  with reaches_successor_iff [of s b c h] show ?case by simp
qed

lemma chain_head_unique:
  assumes "same_chain s a h" "is_current s h" "same_chain s a h'" "is_current s h'"
  shows "h = h'"
proof -
  have "reaches s a h"
    using same_chain_reaches [OF assms(1,2)] reaches_self by blast
  moreover have "reaches s a h'"
    using same_chain_reaches [OF assms(3,4)] reaches_self by blast
  ultimately show ?thesis
    using assms(2,4) by (rule_tac reaches_head_unique) auto
qed

lemma chain_head_exists:
  assumes "store_inv s" "a < length s"
  shows "\<exists>h. same_chain s a h \<and> is_current s h"
  using reaches_current [OF assms] reaches_same_chain by blast

subsection \<open>Histories of the store\<close>

lemma store_inv_empty: "store_inv []"
  by (simp add: store_inv_def)

lemma store_inv_create:
  assumes "store_inv s"
  shows "store_inv (snd (library_create now new_fields s))"
proof -
  define s1 where "s1 = s @ [new_item now new_fields s]"
  have len1: "length s1 = Suc (length s)" by (simp add: s1_def)
  have "item_id (s1 ! k) = k
      \<and> (\<forall>j. item_superseded_by_id (s1 ! k) = Some j \<longrightarrow> k < j \<and> j < length s1)"
    if "k < length s1" for k
  proof (cases "k < length s")
    case True
    then have nth: "s1 ! k = s ! k" by (simp add: s1_def nth_append)
    from assms True have "item_id (s ! k) = k"
      and "\<And>j. item_superseded_by_id (s ! k) = Some j \<Longrightarrow> k < j \<and> j < length s"
      unfolding store_inv_def by blast+
    then show ?thesis unfolding nth len1 using less_Suc_eq by blast
  next
    case False
    with that len1 have "k = length s" by simp
    then show ?thesis by (simp add: s1_def new_item_def)
  qed
  then have "store_inv s1" unfolding store_inv_def by blast
  then show ?thesis by (simp add: library_create_def s1_def)
qed

lemma length_set_superseded_by: "length (set_superseded_by old_id new_id s) = length s"
  by (simp add: set_superseded_by_def)

lemma store_inv_supersede:
  assumes "store_inv s"
  shows "store_inv (snd (library_supersede now old_id new_fields s))"
proof (cases "find_item old_id s")
  case None
  with assms show ?thesis by (simp add: library_supersede_def)
next
  case (Some old)
  show ?thesis
  proof (cases "item_superseded_by_id old = None")
    case False
    with Some assms show ?thesis by (simp add: library_supersede_def)
  next
    case True
    define s1 where "s1 = s @ [new_item now new_fields s]"
    have inv1: "store_inv s1"
      using store_inv_create [OF assms, of now new_fields]
      by (simp add: library_create_def s1_def)
    from Some have old: "old_id < length s"
      by (simp add: find_item_inv [OF assms] split: if_splits)
    have res: "snd (library_supersede now old_id new_fields s)
        = set_superseded_by old_id (length s) s1"
      using Some True by (simp add: library_supersede_def library_create_def s1_def new_item_def)
    have len1: "length s1 = Suc (length s)" by (simp add: s1_def)
    have "item_id (set_superseded_by old_id (length s) s1 ! k) = k
        \<and> (\<forall>j. item_superseded_by_id (set_superseded_by old_id (length s) s1 ! k) = Some j
              \<longrightarrow> k < j \<and> j < length s1)"
      if k: "k < length s1" for k
    proof -
      from inv1 k have id: "item_id (s1 ! k) = k"
        and ptr: "\<And>j. item_superseded_by_id (s1 ! k) = Some j \<Longrightarrow> k < j \<and> j < length s1"
        unfolding store_inv_def by blast+
      have nth: "set_superseded_by old_id (length s) s1 ! k
          = (if k = old_id then (s1 ! k)\<lparr>item_superseded_by_id := Some (length s)\<rparr> else s1 ! k)"
        using k id by (simp add: set_superseded_by_def)
      show ?thesis
      proof (cases "k = old_id")
        case True
        with id old len1 show ?thesis
          unfolding nth by simp
      next
        case False
        with id ptr show ?thesis
          unfolding nth by simp
      qed
    qed
    then show ?thesis
      unfolding res store_inv_def length_set_superseded_by by blast
  qed
qed

lemma store_inv_step: "store_inv s \<Longrightarrow> store_inv (library_step call s)"
  by (cases call) (simp_all add: store_inv_create store_inv_supersede)

lemma store_inv_run: "store_inv s \<Longrightarrow> store_inv (library_run calls s)"
  unfolding library_run_def by (induction calls arbitrary: s) (simp_all add: store_inv_step)

lemma superseded_in_iff:
  "superseded_in s i \<longleftrightarrow>
     (\<exists>item. find_item i s = Some item \<and> item_superseded_by_id item \<noteq> None)"
  by (auto simp: superseded_in_def split: option.splits)

lemma find_append_Some: "find P xs = Some x \<Longrightarrow> find P (xs @ ys) = Some x"
  by (induction xs) (auto split: if_splits)

lemma find_item_set_superseded_by:
  "find_item i (set_superseded_by old_id new_id s) =
     map_option (\<lambda>item. if item_id item = old_id then item\<lparr>item_superseded_by_id := Some new_id\<rparr>
                         else item) (find_item i s)"
  unfolding find_item_def set_superseded_by_def
  by (induction s) auto

lemma superseded_in_create:
  "superseded_in s i \<Longrightarrow> superseded_in (snd (library_create now new_fields s)) i"
  by (auto simp: superseded_in_iff library_create_def find_item_def dest: find_append_Some)

lemma superseded_in_set:
  assumes "superseded_in s i"
  shows "superseded_in (set_superseded_by old_id new_id s) i"
proof -
  from assms obtain item where item: "find_item i s = Some item"
    and ptr: "item_superseded_by_id item \<noteq> None"
    unfolding superseded_in_iff by blast
  show ?thesis
  proof (cases "item_id item = old_id")
    case True
    with item have "find_item i (set_superseded_by old_id new_id s)
        = Some (item\<lparr>item_superseded_by_id := Some new_id\<rparr>)"
      by (simp add: find_item_set_superseded_by)
    then show ?thesis unfolding superseded_in_iff by simp
  next
    case False
    with item have "find_item i (set_superseded_by old_id new_id s) = Some item"
      by (simp add: find_item_set_superseded_by)
    with ptr show ?thesis unfolding superseded_in_iff by simp
  qed
qed

lemma supersede_conflict:
  "superseded_in s i \<Longrightarrow> library_supersede now i new_fields s = (Inl ConflictError, s)"
  by (auto simp: superseded_in_iff library_supersede_def)

lemma supersede_success:
  assumes "isl (fst (library_supersede now i new_fields s)) = False"
  shows "superseded_in (snd (library_supersede now i new_fields s)) i"
proof -
  from assms obtain old where old: "find_item i s = Some old" "item_superseded_by_id old = None"
    by (auto simp: library_supersede_def split: option.splits if_splits)
  then have "find_item i (s @ [new_item now new_fields s]) = Some old"
    by (auto simp: find_item_def dest: find_append_Some)
  moreover from old(1) have "item_id old = i"
    by (auto simp: find_item_def find_Some_iff)
  ultimately show ?thesis
    using old by (simp add: library_supersede_def library_create_def superseded_in_iff
        find_item_set_superseded_by)
qed

lemma superseded_in_step: "superseded_in s i \<Longrightarrow> superseded_in (library_step call s) i"
proof (cases call)
  case (Create now new_fields)
  assume "superseded_in s i"
  with Create show ?thesis by (simp add: superseded_in_create)
next
  case (Supersede now old_id new_fields)
  assume a: "superseded_in s i"
  show ?thesis
  proof (cases "isl (fst (library_supersede now old_id new_fields s))")
    case True
    then have "snd (library_supersede now old_id new_fields s) = s"
      by (auto simp: library_supersede_def split: option.splits if_splits prod.splits)
    with a Supersede show ?thesis by simp
  next
    case False
    then obtain old where "find_item old_id s = Some old" "item_superseded_by_id old = None"
      by (auto simp: library_supersede_def split: option.splits if_splits)
    then have "snd (library_supersede now old_id new_fields s)
        = set_superseded_by old_id (length s) (snd (library_create now new_fields s))"
      by (simp add: library_supersede_def library_create_def new_item_def)
    with a Supersede show ?thesis
      by (simp add: superseded_in_set superseded_in_create)
  qed
qed

lemma winners_superseded: "superseded_in s i \<Longrightarrow> winners i calls s = 0"
proof (induction calls arbitrary: s)
  case Nil
  show ?case by simp
next
  case (Cons call calls)
  have "\<not> supersede_wins i call s"
    using Cons.prems by (cases call) (auto simp: supersede_conflict)
  with Cons show ?case by (simp add: superseded_in_step)
qed

lemma winners_le_1: "winners i calls s \<le> 1"
proof (induction calls arbitrary: s)
  case Nil
  show ?case by simp
next
  case (Cons call calls)
  show ?case
  proof (cases "supersede_wins i call s")
    case True
    then have "superseded_in (library_step call s) i"
      by (cases call) (auto simp: supersede_success)
    then have "winners i calls (library_step call s) = 0"
      by (rule winners_superseded)
    with True show ?thesis by simp
  next
    case False
    with Cons.IH [of "library_step call s"] show ?thesis by simp
  qed
qed

text \<open>
  Claim C1. In every history of the store, that is at all times, the supersede chain of
  every stored item has exactly one member with \<open>superseded_by_id = null\<close>. A
  \<open>supersede\<close> that finds the old item's \<open>superseded_by_id\<close> already non-null fails with
  ConflictError and leaves the store, and with it the chain, unchanged. Of the
  \<open>supersede\<close> calls on one item in a history, in whatever order concurrent callers
  commit and whatever else is called in between, at most one succeeds.
\<close>

theorem supersede_chain_single_head:
  "(find_item a (library_run calls []) \<noteq> None \<longrightarrow>
      (\<exists>!h. same_chain (library_run calls []) a h \<and> is_current (library_run calls []) h))
   \<and> (superseded_in store old_id \<longrightarrow>
      library_supersede now old_id new_fields store = (Inl ConflictError, store))
   \<and> winners old_id calls store \<le> 1"
proof (intro conjI impI)
  assume stored: "find_item a (library_run calls []) \<noteq> None"
  have inv: "store_inv (library_run calls [])"
    using store_inv_empty by (rule store_inv_run)
  with stored have "a < length (library_run calls [])"
    by (simp add: find_item_inv split: if_splits)
  with inv obtain h where "same_chain (library_run calls []) a h \<and> is_current (library_run calls []) h"
    using chain_head_exists by blast
  then show "\<exists>!h. same_chain (library_run calls []) a h \<and> is_current (library_run calls []) h"
    using chain_head_unique by blast
next
  assume "superseded_in store old_id"
  then show "library_supersede now old_id new_fields store = (Inl ConflictError, store)"
    by (rule supersede_conflict)
next
  show "winners old_id calls store \<le> 1" by (rule winners_le_1)
qed

theorem supersede_chain_single_head_witness:
  "(\<exists>!h. same_chain (library_run [Create 1 (sample_fields ''A''), Supersede 2 0 (sample_fields ''B''),
              Supersede 3 0 (sample_fields ''C'')] []) 0 h
         \<and> is_current (library_run [Create 1 (sample_fields ''A''), Supersede 2 0 (sample_fields ''B''),
              Supersede 3 0 (sample_fields ''C'')] []) h)
   \<and> library_supersede 3 0 (sample_fields ''C'')
        (library_run [Create 1 (sample_fields ''A''), Supersede 2 0 (sample_fields ''B'')] [])
      = (Inl ConflictError,
         library_run [Create 1 (sample_fields ''A''), Supersede 2 0 (sample_fields ''B'')] [])
   \<and> map item_superseded_by_id
        (library_run [Create 1 (sample_fields ''A''), Supersede 2 0 (sample_fields ''B''),
              Supersede 3 0 (sample_fields ''C'')] []) = [Some 1, None]
   \<and> winners 0 [Create 1 (sample_fields ''A''), Supersede 2 0 (sample_fields ''B''),
              Supersede 3 0 (sample_fields ''C'')] [] = 1"
proof -
  have run2: "library_run [Create 1 (sample_fields ''A''), Supersede 2 0 (sample_fields ''B'')] []
      = [(new_item 1 (sample_fields ''A'') [])\<lparr>item_superseded_by_id := Some 1\<rparr>,
         new_item 2 (sample_fields ''B'') [new_item 1 (sample_fields ''A'') []]]"
    by (simp add: library_run_def library_supersede_def library_create_def find_item_def
        set_superseded_by_def new_item_def)
  have run3: "library_run [Create 1 (sample_fields ''A''), Supersede 2 0 (sample_fields ''B''),
        Supersede 3 0 (sample_fields ''C'')] []
      = library_run [Create 1 (sample_fields ''A''), Supersede 2 0 (sample_fields ''B'')] []"
    by (simp add: library_run_def library_supersede_def library_create_def find_item_def
        set_superseded_by_def new_item_def)
  have sup: "superseded_in
      (library_run [Create 1 (sample_fields ''A''), Supersede 2 0 (sample_fields ''B'')] []) 0"
    unfolding run2 by (simp add: superseded_in_iff find_item_def new_item_def)
  have stored: "find_item 0 (library_run [Create 1 (sample_fields ''A''),
        Supersede 2 0 (sample_fields ''B''), Supersede 3 0 (sample_fields ''C'')] []) \<noteq> None"
    unfolding run3 run2 by (simp add: find_item_def new_item_def)
  have ptrs: "map item_superseded_by_id
        (library_run [Create 1 (sample_fields ''A''), Supersede 2 0 (sample_fields ''B''),
              Supersede 3 0 (sample_fields ''C'')] []) = [Some 1, None]"
    unfolding run3 run2 by (simp add: new_item_def)
  have wins: "winners 0 [Create 1 (sample_fields ''A''), Supersede 2 0 (sample_fields ''B''),
              Supersede 3 0 (sample_fields ''C'')] [] = 1"
    by (simp add: library_supersede_def library_create_def find_item_def
        set_superseded_by_def new_item_def)
  from supersede_chain_single_head [of 0
      "[Create 1 (sample_fields ''A''), Supersede 2 0 (sample_fields ''B''),
        Supersede 3 0 (sample_fields ''C'')]"
      "library_run [Create 1 (sample_fields ''A''), Supersede 2 0 (sample_fields ''B'')] []"
      0 3 "sample_fields ''C''"] stored sup ptrs wins
  show ?thesis by blast
qed

end
